theory Spec2Isabelle
  imports Main "HOL-Library.Word"
begin

unbundle bit_operations_syntax

section \<open>The receiver buffer of kdbus: slot allocator (buffer.c)\<close>

text \<open>
  The embedding follows \<^verbatim>\<open>buffer.c\<close> on an LP64 kernel: \<^verbatim>\<open>size_t\<close>,
  \<^verbatim>\<open>unsigned long\<close> and pointers are 64-bit words, \<^verbatim>\<open>unsigned int\<close> and
  \<^verbatim>\<open>int\<close> are 32-bit words. Arithmetic on them wraps as it does in C. A user
  pointer is the word holding its address, and \<^verbatim>\<open>NULL\<close> is the address 0.
\<close>

type_synonym size_t = "64 word"
type_synonym ulong = "64 word"
type_synonym uint = "32 word"
type_synonym uptr = "64 word"

definition NULL :: uptr where
  "NULL = 0"

text \<open>
  Modelled from the spec: the macro \<^verbatim>\<open>KDBUS_ALIGN8\<close> is declared in a header that is
  not part of the sources at hand; the specification says that it "rounds the current
  cursor up to 8-byte alignment". On \<^verbatim>\<open>size_t\<close> this is the usual add-and-mask.
\<close>

definition KDBUS_ALIGN8 :: "size_t \<Rightarrow> size_t" where
  "KDBUS_ALIGN8 l = (l + 7) AND NOT 7"

text \<open>\<^verbatim>\<open>struct kdbus_buffer\<close>: the fields \<^verbatim>\<open>buf\<close>, \<^verbatim>\<open>size\<close>, \<^verbatim>\<open>pos\<close>, \<^verbatim>\<open>users\<close>.\<close>

record kdbus_buffer =
  b_buf :: uptr
  b_size :: size_t
  b_pos :: size_t
  b_users :: uint

text \<open>
  \<^verbatim>\<open>kdbus_buffer_alloc\<close> returns the slot pointer (\<^verbatim>\<open>NULL\<close> when the slot does not fit)
  together with the buffer as the call leaves it.
\<close>

definition kdbus_buffer_alloc :: "kdbus_buffer \<Rightarrow> size_t \<Rightarrow> uptr \<times> kdbus_buffer" where
  "kdbus_buffer_alloc b len =
     (let p = KDBUS_ALIGN8 (b_pos b) in
      if p + len > b_size b then (NULL, b)
      else (b_buf b + p, b\<lparr>b_pos := p + len, b_users := b_users b + 1\<rparr>))"

text \<open>\<^verbatim>\<open>BUG_ON\<close> stops the kernel thread: it is the only outcome that is not a buffer.\<close>

datatype fatal = BUG

definition kdbus_buffer_free :: "kdbus_buffer \<Rightarrow> uptr \<Rightarrow> fatal + kdbus_buffer" where
  "kdbus_buffer_free b msg =
     (if msg = NULL then Inr b
      else if b_users b = 0 then Inl BUG
      else (let u = b_users b - 1 in
            if u = 0 then Inr (b\<lparr>b_users := u, b_pos := 0\<rparr>)
            else Inr (b\<lparr>b_users := u\<rparr>)))"

text \<open>
  Modelled from the spec: the buffer is registered by connection code that is not part of
  the sources at hand. A fresh buffer has its cursor at the start and no outstanding slot.
\<close>

definition fresh_buffer :: "uptr \<Rightarrow> size_t \<Rightarrow> kdbus_buffer" where
  "fresh_buffer base sz = \<lparr>b_buf = base, b_size = sz, b_pos = 0, b_users = 0\<rparr>"

text \<open>The offset of a slot pointer within the buffer.\<close>

definition slot_offset :: "kdbus_buffer \<Rightarrow> uptr \<Rightarrow> size_t" where
  "slot_offset b p = p - b_buf b"

subsection \<open>Sequences of calls\<close>

datatype buffer_op = Alloc size_t | Free uptr

fun step :: "kdbus_buffer \<Rightarrow> buffer_op \<Rightarrow> fatal + kdbus_buffer" where
  "step b (Alloc len) = Inr (snd (kdbus_buffer_alloc b len))"
| "step b (Free msg) = kdbus_buffer_free b msg"

fun run :: "kdbus_buffer \<Rightarrow> buffer_op list \<Rightarrow> fatal + kdbus_buffer" where
  "run b [] = Inr b"
| "run b (x # xs) = (case step b x of Inl e \<Rightarrow> Inl e | Inr b' \<Rightarrow> run b' xs)"

text \<open>
  The slots handed out by a sequence of allocations, as pairs of offset and length, in
  the order of the calls. A call that returns \<^verbatim>\<open>NULL\<close> hands out no slot.
\<close>

fun alloc_slots :: "kdbus_buffer \<Rightarrow> size_t list \<Rightarrow> (size_t \<times> size_t) list" where
  "alloc_slots b [] = []"
| "alloc_slots b (len # lens) =
     (case kdbus_buffer_alloc b len of (p, b') \<Rightarrow>
        (if p = NULL then alloc_slots b' lens
         else (slot_offset b p, len) # alloc_slots b' lens))"

fun alloc_users :: "kdbus_buffer \<Rightarrow> size_t list \<Rightarrow> uint list" where
  "alloc_users b [] = []"
| "alloc_users b (len # lens) =
     (case kdbus_buffer_alloc b len of (p, b') \<Rightarrow> b_users b' # alloc_users b' lens)"

text \<open>Two byte ranges \<open>[off, off + len)\<close> share a byte.\<close>

definition slots_overlap :: "size_t \<times> size_t \<Rightarrow> size_t \<times> size_t \<Rightarrow> bool" where
  "slots_overlap s t =
     (max (unat (fst s)) (unat (fst t))
        < min (unat (fst s) + unat (snd s)) (unat (fst t) + unat (snd t)))"


section \<open>Pinned page sets: open, close and write (buffer.c)\<close>

text \<open>
  Modelled from the spec: \<^verbatim>\<open>PAGE_SIZE\<close> and \<^verbatim>\<open>PAGE_MASK\<close> come from kernel headers that
  are not part of the sources at hand; the specification works with a page size of 4096.
  The error numbers are those of Linux.
\<close>

definition PAGE_SIZE :: ulong where
  "PAGE_SIZE = 4096"

definition PAGE_MASK :: ulong where
  "PAGE_MASK = NOT (PAGE_SIZE - 1)"

text \<open>A C \<^verbatim>\<open>int\<close> is the 32-bit word of its two's complement; \<open>sint\<close> reads it.\<close>

type_synonym cint = "32 word"

definition ENOMEM :: cint where "ENOMEM = 12"
definition EFAULT :: cint where "EFAULT = 14"
definition ESHUTDOWN :: cint where "ESHUTDOWN = 108"

text \<open>A \<^verbatim>\<open>struct page *\<close> is an opaque handle; pages are told apart by a number.\<close>

type_synonym page = nat

text \<open>
  \<^verbatim>\<open>struct kdbus_buffer_map\<close>. The array \<^verbatim>\<open>pages\<close> is held as the list of the entries
  that have been filled in; whether the array itself is allocated is part of the kernel's
  state below.
\<close>

record kdbus_buffer_map =
  m_pages :: "page list"
  m_n :: uint
  m_cur :: ulong
  m_pos :: ulong

text \<open>
  What the kernel holds on behalf of a map: one entry in \<open>w_pins\<close> for every page
  reference taken by \<^verbatim>\<open>get_user_pages\<close> and not yet dropped by \<^verbatim>\<open>put_page\<close>, and
  whether the page-handle array obtained from \<^verbatim>\<open>kmalloc\<close> is still allocated.
\<close>

record pin_world =
  w_pins :: "page list"
  w_list :: bool

text \<open>
  Reading \<^verbatim>\<open>pages[i]\<close> past the entries that were filled in has no defined result in C;
  the model stops there.
\<close>

datatype undefined_behaviour = BadPageIndex

fun put_pages :: "page list \<Rightarrow> page list \<Rightarrow> page list" where
  "put_pages [] held = held"
| "put_pages (p # ps) held = put_pages ps (remove1 p held)"

definition kdbus_buffer_map_close ::
  "kdbus_buffer_map \<Rightarrow> pin_world \<Rightarrow> undefined_behaviour + pin_world" where
  "kdbus_buffer_map_close m w =
     (if unat (m_n m) \<le> length (m_pages m)
      then Inr (w\<lparr>w_pins := put_pages (take (unat (m_n m)) (m_pages m)) (w_pins w),
                  w_list := False\<rparr>)
      else Inl BadPageIndex)"

text \<open>
  The answers of the kernel services that \<^verbatim>\<open>kdbus_buffer_map_open\<close> calls: whether
  \<^verbatim>\<open>kmalloc\<close> returns an array, whether \<^verbatim>\<open>get_task_mm\<close> returns a memory space, and
  for \<^verbatim>\<open>get_user_pages\<close>, called with the page-aligned base and the number of pages,
  the \<^verbatim>\<open>int\<close> it returns together with the page handles it has pinned and stored, in
  order, at the start of the array.
\<close>

record pin_env =
  kmalloc_ok :: bool
  task_mm :: bool
  get_user_pages :: "ulong \<Rightarrow> uint \<Rightarrow> cint \<times> page list"

text \<open>
  Modelled from the spec: \<^verbatim>\<open>get_user_pages\<close>, the pinning primitive, is a kernel service
  that is not part of the sources at hand. A negative result reports an error and leaves
  no page pinned; a result \<open>have \<ge> 0\<close> is the number of pages actually pinned, whose
  handles are the entries stored in the array.
\<close>

definition gup_contract :: "cint \<times> page list \<Rightarrow> bool" where
  "gup_contract r = (if sint (fst r) < 0 then snd r = [] else length (snd r) = unat (fst r))"

definition page_count :: "ulong \<Rightarrow> size_t \<Rightarrow> uint" where
  "page_count addr len = ucast ((addr + len - 1) div PAGE_SIZE - addr div PAGE_SIZE + 1)"

text \<open>
  The page count as the specification words it, on numbers: the number of pages that the
  range \<open>[addr, addr + len)\<close> spans at page granularity. This second definition is what
  \<open>page_count\<close>, the computation of the code, is compared with.
\<close>

definition pages_spanned :: "nat \<Rightarrow> nat \<Rightarrow> nat" where
  "pages_spanned addr len =
     (if len = 0 then 0 else (addr + len - 1) div 4096 - addr div 4096 + 1)"

text \<open>
  \<^verbatim>\<open>kdbus_buffer_map_open\<close>. The \<^verbatim>\<open>memset\<close> clears \<^verbatim>\<open>sizeof(struct kdbus_buffer)\<close>
  bytes; on LP64 both structures take 32 bytes, so every field of the map is zeroed. The
  result is the returned \<^verbatim>\<open>int\<close>, the map and the kernel's state. Taking and dropping
  the reference on the memory space and its lock are paired on the one path that takes
  them and are left out.
\<close>

definition kdbus_buffer_map_open ::
  "pin_env \<Rightarrow> pin_world \<Rightarrow> uptr \<Rightarrow> size_t
     \<Rightarrow> undefined_behaviour + (cint \<times> kdbus_buffer_map \<times> pin_world)" where
  "kdbus_buffer_map_open env w to len =
     (let map0 = \<lparr>m_pages = [], m_n = 0, m_cur = 0, m_pos = 0\<rparr>;
          addr = to;
          n = page_count addr len
      in if \<not> kmalloc_ok env then Inr (- ENOMEM, map0, w)
         else
           let w1 = w\<lparr>w_list := True\<rparr>;
               base = addr AND PAGE_MASK;
               map1 = map0\<lparr>m_pos := addr - base\<rparr>
           in if \<not> task_mm env then
                (case kdbus_buffer_map_close map1 w1 of
                   Inl u \<Rightarrow> Inl u
                 | Inr w2 \<Rightarrow> Inr (- ESHUTDOWN, map1, w2))
              else
                (case get_user_pages env base n of (have, pinned) \<Rightarrow>
                   let w2 = w1\<lparr>w_pins := pinned @ w_pins w1\<rparr>;
                       map2 = map1\<lparr>m_pages := pinned\<rparr>
                   in if sint have < 0 then
                        (case kdbus_buffer_map_close map2 w2 of
                           Inl u \<Rightarrow> Inl u
                         | Inr w3 \<Rightarrow> Inr (have, map2, w3))
                      else
                        let map3 = map2\<lparr>m_n := have\<rparr>
                        in if m_n map3 < n then
                             (case kdbus_buffer_map_close map3 w2 of
                                Inl u \<Rightarrow> Inl u
                              | Inr w3 \<Rightarrow> Inr (- EFAULT, map3, w3))
                           else Inr (0, map3, w2)))"

subsection \<open>Writing through the window\<close>

text \<open>
  The sender's memory: the byte at a user address, or nothing where the address cannot be
  read.
\<close>

type_synonym umem = "uptr \<Rightarrow> 8 word option"

text \<open>
  Modelled from the spec: \<^verbatim>\<open>copy_from_user\<close> is a kernel service. It copies bytes in
  ascending order and stops at the first one it cannot read; it returns the number of
  bytes it did not copy, so anything but 0 is a fault. The model returns the bytes that
  were copied as well. "Partial writes up to the fault point remain in the destination."
\<close>

fun copy_from_user :: "umem \<Rightarrow> uptr \<Rightarrow> nat \<Rightarrow> 8 word list \<times> nat" where
  "copy_from_user um from 0 = ([], 0)"
| "copy_from_user um from (Suc k) =
     (case um from of
        None \<Rightarrow> ([], Suc k)
      | Some v \<Rightarrow> (case copy_from_user um (from + 1) k of (bs, r) \<Rightarrow> (v # bs, r)))"

text \<open>
  One windowed copy, as the kernel's memory sees it: the page that was mapped, the
  position in the page where the copy started, and the bytes that were stored there.
\<close>

type_synonym window_write = "page \<times> ulong \<times> 8 word list"

text \<open>
  \<^verbatim>\<open>kdbus_buffer_map_write\<close>: the loop, with the windowed copies made so far as an
  accumulator. The result is the returned \<^verbatim>\<open>int\<close>, the map and all windowed copies.
\<close>

function kdbus_buffer_map_write_loop ::
  "umem \<Rightarrow> kdbus_buffer_map \<Rightarrow> uptr \<Rightarrow> size_t \<Rightarrow> window_write list
     \<Rightarrow> undefined_behaviour + (cint \<times> kdbus_buffer_map \<times> window_write list)" where
  "kdbus_buffer_map_write_loop um m from len done =
     (if len > 0 then
        (let bytes = min (PAGE_SIZE - m_pos m) len
         in if length (m_pages m) \<le> unat (m_cur m) then Inl BadPageIndex
            else
              (case copy_from_user um from (unat bytes) of (stored, left) \<Rightarrow>
                 let done' = done @ [(m_pages m ! unat (m_cur m), m_pos m, stored)]
                 in if left \<noteq> 0 then Inr (- EFAULT, m, done')
                    else
                      let m1 = m\<lparr>m_pos := m_pos m + bytes\<rparr>;
                          m2 = (if m_pos m1 = PAGE_SIZE
                                then m1\<lparr>m_pos := 0, m_cur := m_cur m1 + 1\<rparr>
                                else m1)
                      in kdbus_buffer_map_write_loop um m2 from (len - bytes) done'))
      else Inr (0, m, done))"
  by pat_completeness auto
termination
proof (relation "measure (\<lambda>(um, m, from, len, done).
                   2 * unat len + (if m_pos m = PAGE_SIZE then 1 else 0))")
  show "wf (measure (\<lambda>(um, m, from, len, done).
              2 * unat len + (if m_pos m = PAGE_SIZE then 1 else 0)))"
    by simp
next
  fix um :: umem and m :: kdbus_buffer_map and "from" :: uptr and len :: size_t
    and "done" :: "window_write list" and bytes pr stored left done' m1 m2
  assume len: "0 < len"
    and bytes: "bytes = min (PAGE_SIZE - m_pos m) len"
    and m1: "m1 = m\<lparr>m_pos := m_pos m + bytes\<rparr>"
    and m2: "m2 = (if m_pos m1 = PAGE_SIZE then m1\<lparr>m_pos := 0, m_cur := m_cur m1 + 1\<rparr> else m1)"
  have le: "bytes \<le> len"
    by (simp add: bytes)
  show "((um, m2, from, len - bytes, done'), (um, m, from, len, done))
          \<in> measure (\<lambda>(um, m, from, len, done).
                2 * unat len + (if m_pos m = PAGE_SIZE then 1 else 0))"
  proof (cases "bytes = 0")
    case True
    with len bytes have "m_pos m = PAGE_SIZE"
      by (auto simp: min_def split: if_splits)
    with True show ?thesis
      by (simp add: m1 m2 PAGE_SIZE_def)
  next
    case False
    then have "0 < unat bytes"
      by (simp add: unat_gt_0)
    moreover have "unat (len - bytes) = unat len - unat bytes" and "unat bytes \<le> unat len"
      using le by (simp_all add: unat_sub word_le_nat_alt)
    ultimately have "unat (len - bytes) < unat len"
      by simp
    then show ?thesis
      by (simp split: if_splits)
  qed
qed

definition kdbus_buffer_map_write ::
  "umem \<Rightarrow> kdbus_buffer_map \<Rightarrow> uptr \<Rightarrow> size_t
     \<Rightarrow> undefined_behaviour + (cint \<times> kdbus_buffer_map \<times> window_write list)" where
  "kdbus_buffer_map_write um m from len = kdbus_buffer_map_write_loop um m from len []"

text \<open>The bytes that reached the destination, in the order in which they were stored.\<close>

definition written_bytes :: "window_write list \<Rightarrow> 8 word list" where
  "written_bytes ws = concat (map (\<lambda>(pg, off, bs). bs) ws)"

text \<open>The \<open>k\<close> bytes of the sender's range that starts at \<open>from\<close>, where all are readable.\<close>

fun source_bytes :: "umem \<Rightarrow> uptr \<Rightarrow> nat \<Rightarrow> 8 word list option" where
  "source_bytes um from 0 = Some []"
| "source_bytes um from (Suc k) =
     (case um from of
        None \<Rightarrow> None
      | Some v \<Rightarrow> (case source_bytes um (from + 1) k of None \<Rightarrow> None | Some bs \<Rightarrow> Some (v # bs)))"


text \<open>The number of bytes of each windowed copy.\<close>

definition window_lengths :: "window_write list \<Rightarrow> nat list" where
  "window_lengths ws = map (\<lambda>(pg, off, bs). length bs) ws"

text \<open>
  The chunk sizes as the specification words them, on numbers: while the length is not 0,
  a chunk of \<open>min (page_size - pos) length\<close> bytes; the position advances by the chunk and
  returns to 0 when it reaches the page size. This second definition is what the loop of
  the code is compared with.
\<close>

function window_sizes :: "nat \<Rightarrow> nat \<Rightarrow> nat list" where
  "window_sizes pos len =
     (if len = 0 \<or> 4096 \<le> pos then []
      else (let bytes = min (4096 - pos) len
            in bytes # window_sizes (if pos + bytes = 4096 then 0 else pos + bytes)
                         (len - bytes)))"
  by pat_completeness auto
termination
  by (relation "measure (\<lambda>(pos, len). len)") auto

declare window_sizes.simps [simp del]
declare kdbus_buffer_map_write_loop.simps [simp del]

section \<open>Properties of the slot allocator\<close>

subsection \<open>Alignment arithmetic\<close>

lemma seven_is_mask: "(7::64 word) = mask 3"
  by (simp add: mask_eq_exp_minus_1)

lemma clear_low_bits: "(y::64 word) AND NOT 7 = push_bit 3 (drop_bit 3 y)"
  unfolding seven_is_mask by (rule bit_eqI) (auto simp: bit_simps)

lemma unat_clear_low_bits: "unat ((y::64 word) AND NOT 7) = 8 * (unat y div 8)"
proof -
  have "unat y < 2 ^ 64"
    using unsigned_less [of y, where 'a = nat] by simp
  then have lt: "8 * (unat y div 8) < 2 ^ 64"
    by simp
  have "unat (push_bit 3 (drop_bit 3 y)) = take_bit 64 (push_bit 3 (drop_bit 3 (unat y)))"
    by (simp only: unsigned_push_bit_eq unat_drop_bit_eq) simp
  also have "\<dots> = (8 * (unat y div 8)) mod 2 ^ 64"
    by (simp add: push_bit_eq_mult drop_bit_eq_div take_bit_eq_mod mult.commute)
  also have "\<dots> = 8 * (unat y div 8)"
    using lt by simp
  finally show ?thesis
    unfolding clear_low_bits .
qed

lemma unat_KDBUS_ALIGN8:
  "unat (KDBUS_ALIGN8 x) = 8 * (((unat x + 7) mod 2 ^ 64) div 8)"
  unfolding KDBUS_ALIGN8_def unat_clear_low_bits by (simp add: unat_word_ariths)

lemma KDBUS_ALIGN8_multiple: "unat (KDBUS_ALIGN8 x) mod 8 = 0"
  by (simp add: unat_KDBUS_ALIGN8)

lemma KDBUS_ALIGN8_rounds_up:
  assumes "unat x + 7 < 2 ^ 64"
  shows "unat x \<le> unat (KDBUS_ALIGN8 x)" and "unat (KDBUS_ALIGN8 x) < unat x + 8"
  using assms by (simp_all add: unat_KDBUS_ALIGN8)

lemma KDBUS_ALIGN8_wraps: "KDBUS_ALIGN8 (- 1) = 0"
  by (simp add: KDBUS_ALIGN8_def)

subsection \<open>Allocation\<close>

text \<open>
  Where neither the rounding nor the addition of the length leaves the range of
  \<^verbatim>\<open>size_t\<close>, the comparison in \<^verbatim>\<open>kdbus_buffer_alloc\<close> is the comparison of the
  numbers, and the call does what its description says.
\<close>

lemma kdbus_buffer_alloc_in_range:
  assumes "unat (b_pos b) + 7 + unat len < 2 ^ 64"
  shows "kdbus_buffer_alloc b len =
           (if unat (KDBUS_ALIGN8 (b_pos b)) + unat len > unat (b_size b) then (NULL, b)
            else (b_buf b + KDBUS_ALIGN8 (b_pos b),
                  b\<lparr>b_pos := KDBUS_ALIGN8 (b_pos b) + len, b_users := b_users b + 1\<rparr>))"
proof -
  have "unat (KDBUS_ALIGN8 (b_pos b)) < unat (b_pos b) + 8"
    using assms by (intro KDBUS_ALIGN8_rounds_up) simp
  then have "unat (KDBUS_ALIGN8 (b_pos b)) + unat len < 2 ^ 64"
    using assms by simp
  then have "unat (KDBUS_ALIGN8 (b_pos b) + len) = unat (KDBUS_ALIGN8 (b_pos b)) + unat len"
    by (simp add: unat_add_lem [where 'a = 64, simplified])
  then show ?thesis
    by (simp add: kdbus_buffer_alloc_def Let_def word_less_nat_alt)
qed

text \<open>
  C1. The claim: allocate fails, leaving cursor and count as they were, whenever the
  aligned cursor plus the length exceeds the total size of the buffer. The comparison
  \<^verbatim>\<open>pos + len > buf->size\<close> is made on \<^verbatim>\<open>size_t\<close>, where the sum wraps. On a buffer
  of 4096 bytes that holds one slot of one byte (cursor 1, one user), a request for
  \<open>2\<^sup>6\<^sup>4 - 8\<close> bytes has the aligned cursor 8 and the sum \<open>2\<^sup>6\<^sup>4\<close>, which wraps to 0:
  the call returns the slot at offset 8, sets the cursor to 0 and counts a second user,
  although 8 plus the length is far beyond 4096.
\<close>

theorem kdbus_buffer_alloc_sum_wraps:
  "snd (kdbus_buffer_alloc (fresh_buffer 0x10000 4096) 1)
     = \<lparr>b_buf = 0x10000, b_size = 4096, b_pos = 1, b_users = 1\<rparr>
   \<and> kdbus_buffer_alloc \<lparr>b_buf = 0x10000, b_size = 4096, b_pos = 1, b_users = 1\<rparr>
         0xFFFFFFFFFFFFFFF8
     = (0x10008, \<lparr>b_buf = 0x10000, b_size = 4096, b_pos = 0, b_users = 2\<rparr>)
   \<and> unat (KDBUS_ALIGN8 1) + unat (0xFFFFFFFFFFFFFFF8 :: size_t) > unat (4096 :: size_t)"
  by (simp add: kdbus_buffer_alloc_def KDBUS_ALIGN8_def NULL_def fresh_buffer_def)

subsection \<open>Release\<close>

text \<open>
  C2. Release with the null handle changes nothing. Release with another handle stops at
  \<^verbatim>\<open>BUG_ON\<close> when no slot is outstanding. Otherwise the count goes down by one; the
  cursor becomes 0 when the count has reached 0 and stays as it was when it has not. Base
  address and size are never touched.
\<close>

theorem kdbus_buffer_free_cases:
  "kdbus_buffer_free b NULL = Inr b
   \<and> (msg \<noteq> NULL \<and> b_users b = 0 \<longrightarrow> kdbus_buffer_free b msg = Inl BUG)
   \<and> (msg \<noteq> NULL \<and> b_users b \<noteq> 0 \<longrightarrow>
        (\<exists>b'. kdbus_buffer_free b msg = Inr b'
            \<and> unat (b_users b') + 1 = unat (b_users b)
            \<and> (b_users b' = 0 \<longrightarrow> b_pos b' = 0)
            \<and> (b_users b' \<noteq> 0 \<longrightarrow> b_pos b' = b_pos b)
            \<and> b_buf b' = b_buf b \<and> b_size b' = b_size b))"
proof -
  have "unat (b_users b - 1) + 1 = unat (b_users b)" if "b_users b \<noteq> 0"
    using that by (simp add: unat_minus_one unat_gt_0 [symmetric] Suc_leI)
  then show ?thesis
    by (simp add: kdbus_buffer_free_def Let_def)
qed

theorem kdbus_buffer_free_cases_witness:
  "(0x10000 :: uptr) \<noteq> NULL
   \<and> kdbus_buffer_free \<lparr>b_buf = 0x10000, b_size = 4096, b_pos = 0, b_users = 0\<rparr> 0x10000
       = Inl BUG
   \<and> b_pos (projr (kdbus_buffer_free
        \<lparr>b_buf = 0x10000, b_size = 4096, b_pos = 204, b_users = 2\<rparr> 0x10000)) = 204
   \<and> b_pos (projr (kdbus_buffer_free
        \<lparr>b_buf = 0x10000, b_size = 4096, b_pos = 204, b_users = 1\<rparr> 0x10000)) = 0"
  using kdbus_buffer_free_cases
          [of "\<lparr>b_buf = 0x10000, b_size = 4096, b_pos = 0, b_users = 0\<rparr>" "0x10000"]
        kdbus_buffer_free_cases
          [of "\<lparr>b_buf = 0x10000, b_size = 4096, b_pos = 204, b_users = 2\<rparr>" "0x10000"]
        kdbus_buffer_free_cases
          [of "\<lparr>b_buf = 0x10000, b_size = 4096, b_pos = 204, b_users = 1\<rparr>" "0x10000"]
  by (simp add: NULL_def kdbus_buffer_free_def)

text \<open>
  C10. With a slot outstanding, any two non-null handles give the same result, the one
  that the count and the cursor alone determine: the handle is only tested against
  \<^verbatim>\<open>NULL\<close>, so a pointer that allocate never returned releases a slot like any other.
\<close>

theorem kdbus_buffer_free_ignores_handle_value:
  assumes "b_users b \<noteq> 0" and "m1 \<noteq> NULL" and "m2 \<noteq> NULL"
  shows "kdbus_buffer_free b m1 = kdbus_buffer_free b m2
         \<and> kdbus_buffer_free b m1 =
             Inr (b\<lparr>b_users := b_users b - 1,
                     b_pos := (if b_users b - 1 = 0 then 0 else b_pos b)\<rparr>)"
  using assms by (simp add: kdbus_buffer_free_def Let_def)

theorem kdbus_buffer_free_ignores_handle_value_witness:
  "kdbus_buffer_free \<lparr>b_buf = 0x10000, b_size = 4096, b_pos = 100, b_users = 1\<rparr> 0x10000
     = kdbus_buffer_free \<lparr>b_buf = 0x10000, b_size = 4096, b_pos = 100, b_users = 1\<rparr> 0xDEADBEEF
   \<and> kdbus_buffer_free \<lparr>b_buf = 0x10000, b_size = 4096, b_pos = 100, b_users = 1\<rparr> 0xDEADBEEF
     = Inr \<lparr>b_buf = 0x10000, b_size = 4096, b_pos = 0, b_users = 0\<rparr>"
  using kdbus_buffer_free_ignores_handle_value
          [of "\<lparr>b_buf = 0x10000, b_size = 4096, b_pos = 100, b_users = 1\<rparr>"
              "0x10000" "0xDEADBEEF"]
  by (simp add: NULL_def kdbus_buffer_free_def)

subsection \<open>Sequences of calls from a fresh buffer\<close>

lemma unat_add_mod8: "unat ((a::64 word) + l) mod 8 = (unat a + unat l) mod 8"
proof -
  have "(8::nat) dvd 2 ^ 64"
    by simp
  then show ?thesis
    by (simp add: unat_word_ariths mod_mod_cancel)
qed

lemma alloc_keeps_cursor_in_buffer:
  "b_pos b \<le> b_size b \<Longrightarrow> b_pos (snd (kdbus_buffer_alloc b len)) \<le> b_size b"
  by (simp add: kdbus_buffer_alloc_def Let_def not_less)

lemma alloc_keeps_size: "b_size (snd (kdbus_buffer_alloc b len)) = b_size b"
  by (simp add: kdbus_buffer_alloc_def Let_def)

lemma free_keeps_cursor_in_buffer:
  "b_pos b \<le> b_size b \<Longrightarrow> kdbus_buffer_free b m = Inr b'
     \<Longrightarrow> b_pos b' \<le> b_size b' \<and> b_size b' = b_size b"
  by (auto simp: kdbus_buffer_free_def Let_def split: if_splits)

lemma step_keeps_cursor_in_buffer:
  "b_pos b \<le> b_size b \<Longrightarrow> step b x = Inr b' \<Longrightarrow> b_pos b' \<le> b_size b'"
  by (cases x)
    (auto simp: alloc_keeps_cursor_in_buffer alloc_keeps_size dest: free_keeps_cursor_in_buffer)

lemma run_keeps_cursor_in_buffer:
  "b_pos b \<le> b_size b \<Longrightarrow> run b ops = Inr b' \<Longrightarrow> b_pos b' \<le> b_size b'"
proof (induction ops arbitrary: b)
  case Nil
  then show ?case by simp
next
  case (Cons x xs)
  then show ?case
    by (auto split: sum.splits dest: step_keeps_cursor_in_buffer)
qed

text \<open>
  C3, as stated: after every allocate or release of a sequence that starts from a fresh
  buffer, the stored cursor is a multiple of 8. It is not: the first allocation of 100
  bytes leaves the cursor at 100. The code stores the end of the last slot and rounds it
  up only when the next slot is placed.
\<close>

theorem stored_cursor_not_aligned:
  "run (fresh_buffer 0x10000 4096) [Alloc 100]
     = Inr \<lparr>b_buf = 0x10000, b_size = 4096, b_pos = 100, b_users = 1\<rparr>
   \<and> unat (100 :: size_t) mod 8 = 4"
  by (simp add: kdbus_buffer_alloc_def KDBUS_ALIGN8_def NULL_def fresh_buffer_def)

text \<open>
  C3, amended: in every state reached from a fresh buffer, the offset of a slot that
  allocate returns is a multiple of 8; the cursor it stores is that offset plus the
  length, so it is congruent to the length modulo 8; a release leaves the cursor as it was
  or sets it to 0.
\<close>

theorem slot_offset_aligned:
  assumes "run (fresh_buffer base sz) ops = Inr b"
  shows "(\<forall>len p b'. kdbus_buffer_alloc b len = (p, b') \<and> p \<noteq> NULL \<longrightarrow>
            unat (slot_offset b p) mod 8 = 0
            \<and> b_pos b' = slot_offset b p + len
            \<and> unat (b_pos b') mod 8 = unat len mod 8)
       \<and> (\<forall>m b'. kdbus_buffer_free b m = Inr b' \<longrightarrow> b_pos b' = b_pos b \<or> b_pos b' = 0)"
proof -
  have "unat (slot_offset b p) mod 8 = 0 \<and> b_pos b' = slot_offset b p + len
          \<and> unat (b_pos b') mod 8 = unat len mod 8"
    if "kdbus_buffer_alloc b len = (p, b')" "p \<noteq> NULL" for len p b'
  proof -
    from that have p: "p = b_buf b + KDBUS_ALIGN8 (b_pos b)"
      and b': "b_pos b' = KDBUS_ALIGN8 (b_pos b) + len"
      by (auto simp: kdbus_buffer_alloc_def Let_def split: if_splits)
    have off: "slot_offset b p = KDBUS_ALIGN8 (b_pos b)"
      by (simp add: p slot_offset_def)
    have "unat (KDBUS_ALIGN8 (b_pos b) + len) mod 8
            = (unat (KDBUS_ALIGN8 (b_pos b)) + unat len) mod 8"
      by (rule unat_add_mod8)
    also have "\<dots> = (unat (KDBUS_ALIGN8 (b_pos b)) mod 8 + unat len) mod 8"
      by (simp only: mod_add_left_eq)
    also have "\<dots> = unat len mod 8"
      by (simp only: KDBUS_ALIGN8_multiple) simp
    finally show ?thesis
      by (simp add: off b' KDBUS_ALIGN8_multiple)
  qed
  moreover have "b_pos b' = b_pos b \<or> b_pos b' = 0"
    if "kdbus_buffer_free b m = Inr b'" for m b'
    using that by (auto simp: kdbus_buffer_free_def Let_def split: if_splits)
  ultimately show ?thesis
    by blast
qed

theorem slot_offset_aligned_witness:
  "run (fresh_buffer 0x10000 4096) [Alloc 100]
     = Inr \<lparr>b_buf = 0x10000, b_size = 4096, b_pos = 100, b_users = 1\<rparr>
   \<and> kdbus_buffer_alloc \<lparr>b_buf = 0x10000, b_size = 4096, b_pos = 100, b_users = 1\<rparr> 100
     = (0x10068, \<lparr>b_buf = 0x10000, b_size = 4096, b_pos = 204, b_users = 2\<rparr>)
   \<and> (0x10068 :: uptr) \<noteq> NULL
   \<and> unat (slot_offset \<lparr>b_buf = 0x10000, b_size = 4096, b_pos = 100, b_users = 1\<rparr> 0x10068)
        mod 8 = 0"
  using slot_offset_aligned
          [of "0x10000" 4096 "[Alloc 100]"
              "\<lparr>b_buf = 0x10000, b_size = 4096, b_pos = 100, b_users = 1\<rparr>"]
  by (simp add: kdbus_buffer_alloc_def KDBUS_ALIGN8_def NULL_def fresh_buffer_def
        slot_offset_def)

text \<open>
  A sequence of calls respects the count when no release stops at \<^verbatim>\<open>BUG_ON\<close>, that is,
  when \<open>run\<close> returns a buffer. In every state \<open>b\<close> such a sequence reaches, the cursor
  is at most the size; and whatever release comes next, the cursor is 0 after it when the
  release has brought the count back to 0, and is what it was before otherwise.
\<close>

lemma cursor_in_buffer_and_release_resets:
  assumes "run (fresh_buffer base sz) ops = Inr b"
  shows "b_pos b \<le> b_size b
       \<and> (\<forall>m b'. kdbus_buffer_free b m = Inr b' \<longrightarrow>
            (if b_users b \<noteq> 0 \<and> b_users b' = 0 then b_pos b' = 0
             else b_pos b' = b_pos b))"
proof -
  have "b_pos (fresh_buffer base sz) \<le> b_size (fresh_buffer base sz)"
    by (simp add: fresh_buffer_def)
  then have "b_pos b \<le> b_size b"
    using assms by (rule run_keeps_cursor_in_buffer)
  moreover have "(if b_users b \<noteq> 0 \<and> b_users b' = 0 then b_pos b' = 0
                  else b_pos b' = b_pos b)"
    if "kdbus_buffer_free b m = Inr b'" for m b'
    using that by (auto simp: kdbus_buffer_free_def Let_def split: if_splits)
  ultimately show ?thesis
    by blast
qed

lemma cursor_in_buffer_and_release_resets_example:
  "run (fresh_buffer 0x10000 4096) [Alloc 100, Alloc 100, Free 0x10000]
     = Inr \<lparr>b_buf = 0x10000, b_size = 4096, b_pos = 204, b_users = 1\<rparr>
   \<and> (204 :: size_t) \<le> 4096
   \<and> kdbus_buffer_free \<lparr>b_buf = 0x10000, b_size = 4096, b_pos = 204, b_users = 1\<rparr> 0x10068
     = Inr \<lparr>b_buf = 0x10000, b_size = 4096, b_pos = 0, b_users = 0\<rparr>"
  using cursor_in_buffer_and_release_resets
          [of "0x10000" 4096 "[Alloc 100, Alloc 100, Free 0x10000]"
              "\<lparr>b_buf = 0x10000, b_size = 4096, b_pos = 204, b_users = 1\<rparr>"]
  by (simp add: kdbus_buffer_alloc_def KDBUS_ALIGN8_def NULL_def fresh_buffer_def
        kdbus_buffer_free_def)

text \<open>
  An allocate whose sums stay within \<^verbatim>\<open>size_t\<close> never moves the cursor backwards, so
  that only a release can bring it to 0 again.
\<close>

lemma alloc_cursor_forward_in_range:
  assumes "unat (b_pos b) + 7 + unat len < 2 ^ 64"
  shows "unat (b_pos b) \<le> unat (b_pos (snd (kdbus_buffer_alloc b len)))"
proof -
  let ?a = "KDBUS_ALIGN8 (b_pos b)"
  have up: "unat (b_pos b) \<le> unat ?a" and lt: "unat ?a < unat (b_pos b) + 8"
    using assms by (simp_all add: KDBUS_ALIGN8_rounds_up)
  then have "unat ?a + unat len < 2 ^ 64"
    using assms by simp
  then have "unat (?a + len) = unat ?a + unat len"
    by (simp add: unat_add_lem [where 'a = 64, simplified])
  with up show ?thesis
    by (simp add: kdbus_buffer_alloc_in_range [OF assms])
qed

text \<open>
  C4. The claim: over sequences of calls that respect the count, the cursor never exceeds
  the size and is reset to zero exactly at the releases that bring the count back to
  zero, hence at no other call. The bound holds, and so does the behaviour of release.
  But an allocate resets the cursor as well when its sum wraps: on a fresh buffer of 4096
  bytes, after one allocation of 1 byte, the allocation of \<open>2\<^sup>6\<^sup>4 - 8\<close> bytes takes the
  cursor from 1 to 0 while two slots are outstanding.
\<close>

theorem cursor_zeroed_by_allocate:
  "run (fresh_buffer 0x10000 4096) [Alloc 1]
     = Inr \<lparr>b_buf = 0x10000, b_size = 4096, b_pos = 1, b_users = 1\<rparr>
   \<and> step \<lparr>b_buf = 0x10000, b_size = 4096, b_pos = 1, b_users = 1\<rparr>
         (Alloc 0xFFFFFFFFFFFFFFF8)
     = Inr \<lparr>b_buf = 0x10000, b_size = 4096, b_pos = 0, b_users = 2\<rparr>
   \<and> run (fresh_buffer 0x10000 4096) [Alloc 1, Alloc 0xFFFFFFFFFFFFFFF8]
     = Inr \<lparr>b_buf = 0x10000, b_size = 4096, b_pos = 0, b_users = 2\<rparr>"
  by (simp add: kdbus_buffer_alloc_def KDBUS_ALIGN8_def NULL_def fresh_buffer_def)

text \<open>
  Where the buffer is smaller than \<open>2\<^sup>6\<^sup>2\<close> bytes and no requested length exceeds its size,
  no sum wraps: every slot handed out lies between the cursor and the end of the buffer,
  and no two slots share a byte.
\<close>

lemma alloc_slots_in_range:
  assumes "unat (b_size b) < 2 ^ 62" and "b_pos b \<le> b_size b"
    and "\<forall>l \<in> set lens. l \<le> b_size b"
  shows "(\<forall>s \<in> set (alloc_slots b lens).
            unat (b_pos b) \<le> unat (fst s) \<and> unat (fst s) + unat (snd s) \<le> unat (b_size b))
       \<and> sorted_wrt (\<lambda>s t. \<not> slots_overlap s t) (alloc_slots b lens)"
  using assms
proof (induction lens arbitrary: b)
  case Nil
  then show ?case by simp
next
  case (Cons len lens)
  let ?a = "KDBUS_ALIGN8 (b_pos b)"
  from Cons.prems have pos: "unat (b_pos b) \<le> unat (b_size b)" and len: "unat len \<le> unat (b_size b)"
    by (simp_all add: word_le_nat_alt)
  with Cons.prems(1) have fit: "unat (b_pos b) + 7 + unat len < 2 ^ 64"
    by simp
  then have up: "unat (b_pos b) \<le> unat ?a"
    by (intro KDBUS_ALIGN8_rounds_up) simp
  note alloc = kdbus_buffer_alloc_in_range [OF fit]
  show ?case
  proof (cases "unat ?a + unat len > unat (b_size b)")
    case True
    with alloc have "kdbus_buffer_alloc b len = (NULL, b)"
      by simp
    with Cons.IH [of b] Cons.prems show ?thesis
      by simp
  next
    case False
    define b' where "b' = b\<lparr>b_pos := ?a + len, b_users := b_users b + 1\<rparr>"
    from False alloc have res: "kdbus_buffer_alloc b len = (b_buf b + ?a, b')"
      by (simp add: b'_def)
    from False have "unat ?a + unat len < 2 ^ 64"
      using Cons.prems(1) by simp
    then have end': "unat (b_pos b') = unat ?a + unat len"
      by (simp add: b'_def unat_add_lem [where 'a = 64, simplified])
    with False have "b_pos b' \<le> b_size b'"
      by (simp add: b'_def word_le_nat_alt)
    moreover have "unat (b_size b') < 2 ^ 62" "\<forall>l \<in> set lens. l \<le> b_size b'"
      using Cons.prems by (simp_all add: b'_def)
    ultimately have IH: "\<forall>s \<in> set (alloc_slots b' lens).
            unat (b_pos b') \<le> unat (fst s) \<and> unat (fst s) + unat (snd s) \<le> unat (b_size b')"
      "sorted_wrt (\<lambda>s t. \<not> slots_overlap s t) (alloc_slots b' lens)"
      using Cons.IH [of b'] by simp_all
    have sz: "b_size b' = b_size b"
      by (simp add: b'_def)
    have off: "slot_offset b (b_buf b + ?a) = ?a"
      by (simp add: slot_offset_def)
    have rest: "unat (b_pos b) \<le> unat (fst s) \<and> unat (fst s) + unat (snd s) \<le> unat (b_size b)
                \<and> \<not> slots_overlap (?a, len) s"
      if "s \<in> set (alloc_slots b' lens)" for s
      using IH(1) that up end' by (auto simp: sz slots_overlap_def)
    show ?thesis
      using rest IH(2) up False by (auto simp: res off)
  qed
qed

text \<open>
  C5. The claim: the slots of successive successful allocations, with no reset between
  them, are pairwise disjoint. On a fresh buffer of 4096 bytes, allocations of 1,
  \<open>2\<^sup>6\<^sup>4 - 8\<close> and 16 bytes all succeed, the count going 1, 2, 3; the second one wraps
  the cursor to 0, so the third slot starts at offset 0 again and shares its first byte
  with the first slot.
\<close>

theorem alloc_slots_overlap_after_wrap:
  "alloc_slots (fresh_buffer 0x10000 4096) [1, 0xFFFFFFFFFFFFFFF8, 16]
     = [(0, 1), (8, 0xFFFFFFFFFFFFFFF8), (0, 16)]
   \<and> alloc_users (fresh_buffer 0x10000 4096) [1, 0xFFFFFFFFFFFFFFF8, 16] = [1, 2, 3]
   \<and> slots_overlap (0, 1) (0, 16)"
  by (simp add: kdbus_buffer_alloc_def KDBUS_ALIGN8_def NULL_def fresh_buffer_def
        slot_offset_def slots_overlap_def)

text \<open>
  C6. The scenario on a fresh buffer of 4096 bytes, for every base address at which the
  two slot pointers are not \<^verbatim>\<open>NULL\<close> (a release tells a slot from no slot by that
  alone): two allocations of 100 bytes return the offsets 0 and 104; releasing the first
  slot leaves one slot outstanding and the cursor where it was; releasing the second one
  sets the cursor to 0.
\<close>

theorem scenario_two_slots:
  assumes "base \<noteq> NULL" and "base + 104 \<noteq> NULL"
  shows "(let b0 = fresh_buffer base 4096;
              (p1, b1) = kdbus_buffer_alloc b0 100;
              (p2, b2) = kdbus_buffer_alloc b1 100
          in slot_offset b0 p1 = 0 \<and> slot_offset b1 p2 = 104
             \<and> (\<exists>b3. kdbus_buffer_free b2 p1 = Inr b3
                   \<and> b_users b3 = 1 \<and> b_pos b3 = b_pos b2
                   \<and> (\<exists>b4. kdbus_buffer_free b3 p2 = Inr b4
                         \<and> b_users b4 = 0 \<and> b_pos b4 = 0)))"
  using assms
  by (simp add: kdbus_buffer_alloc_def KDBUS_ALIGN8_def NULL_def fresh_buffer_def
        slot_offset_def kdbus_buffer_free_def Let_def)

theorem scenario_two_slots_witness:
  "(0x10000 :: uptr) \<noteq> NULL \<and> (0x10000 :: uptr) + 104 \<noteq> NULL
   \<and> kdbus_buffer_alloc (fresh_buffer 0x10000 4096) 100
       = (0x10000, \<lparr>b_buf = 0x10000, b_size = 4096, b_pos = 100, b_users = 1\<rparr>)
   \<and> kdbus_buffer_alloc \<lparr>b_buf = 0x10000, b_size = 4096, b_pos = 100, b_users = 1\<rparr> 100
       = (0x10068, \<lparr>b_buf = 0x10000, b_size = 4096, b_pos = 204, b_users = 2\<rparr>)
   \<and> kdbus_buffer_free \<lparr>b_buf = 0x10000, b_size = 4096, b_pos = 204, b_users = 2\<rparr> 0x10000
       = Inr \<lparr>b_buf = 0x10000, b_size = 4096, b_pos = 204, b_users = 1\<rparr>
   \<and> kdbus_buffer_free \<lparr>b_buf = 0x10000, b_size = 4096, b_pos = 204, b_users = 1\<rparr> 0x10068
       = Inr \<lparr>b_buf = 0x10000, b_size = 4096, b_pos = 0, b_users = 0\<rparr>"
  using scenario_two_slots [of "0x10000"]
  by (simp add: kdbus_buffer_alloc_def KDBUS_ALIGN8_def NULL_def fresh_buffer_def
        slot_offset_def kdbus_buffer_free_def Let_def)

section \<open>Properties of the pinned page set\<close>

subsection \<open>Open\<close>

lemma put_pages_cancel: "put_pages ps (ps @ held) = held"
  by (induction ps) auto

lemma EFAULT_not_zero: "EFAULT \<noteq> 0"
  by (simp add: EFAULT_def)

text \<open>
  Let the page-handle array be allocated, and let the pinning primitive, called with the
  page-aligned base and the count \<open>page_count to len\<close> that the code computes, answer
  \<open>have\<close> and \<open>pinned\<close> within its contract. Then \<^verbatim>\<open>kdbus_buffer_map_open\<close> returns
  normally; where the memory space exists, a negative \<open>have\<close> is returned as it is, and
  \<open>have\<close> below the computed count gives \<^verbatim>\<open>-EFAULT\<close>; and whenever the result is an
  error, the kernel holds the pins it held before the call and the array has been freed.
  On success the pinned pages are held, in the map, with the array.
\<close>

lemma kdbus_buffer_map_open_outcomes:
  assumes "kmalloc_ok env"
    and "get_user_pages env (to AND PAGE_MASK) (page_count to len) = (have, pinned)"
    and "gup_contract (have, pinned)"
  shows "\<exists>r m w'. kdbus_buffer_map_open env w to len = Inr (r, m, w')
           \<and> (task_mm env \<and> sint have < 0 \<longrightarrow> r = have)
           \<and> (task_mm env \<and> 0 \<le> sint have \<and> have < page_count to len \<longrightarrow> r = - EFAULT)
           \<and> (r \<noteq> 0 \<longrightarrow> w_pins w' = w_pins w \<and> \<not> w_list w')
           \<and> (r = 0 \<longrightarrow> w_pins w' = pinned @ w_pins w \<and> w_list w' \<and> m_pages m = pinned
                 \<and> m_n m = have \<and> page_count to len \<le> have)"
proof (cases "task_mm env")
  case False
  with assms show ?thesis
    by (simp add: kdbus_buffer_map_open_def kdbus_buffer_map_close_def Let_def ESHUTDOWN_def)
next
  case mm: True
  show ?thesis
  proof (cases "sint have < 0")
    case True
    then have "have \<noteq> 0"
      by auto
    with True mm assms show ?thesis
      by (simp add: kdbus_buffer_map_open_def kdbus_buffer_map_close_def Let_def
            gup_contract_def)
  next
    case False
    with assms have len: "length pinned = unat have"
      by (simp add: gup_contract_def)
    show ?thesis
    proof (cases "have < page_count to len")
      case True
      with False mm assms len show ?thesis
        by (simp add: kdbus_buffer_map_open_def kdbus_buffer_map_close_def Let_def
              put_pages_cancel EFAULT_def)
    next
      case ge: False
      then have "page_count to len \<le> have"
        by simp
      with ge False mm assms len show ?thesis
        by (simp add: kdbus_buffer_map_open_def Let_def)
    qed
  qed
qed

lemma kdbus_buffer_map_open_outcomes_example:
  "kdbus_buffer_map_open
      \<lparr>kmalloc_ok = True, task_mm = True, get_user_pages = (\<lambda>b n. (1, [7]))\<rparr>
      \<lparr>w_pins = [], w_list = False\<rparr> 0x10FF8 16
     = Inr (- EFAULT, \<lparr>m_pages = [7], m_n = 1, m_cur = 0, m_pos = 0xFF8\<rparr>,
            \<lparr>w_pins = [], w_list = False\<rparr>)
   \<and> page_count 0x10FF8 16 = 2
   \<and> kdbus_buffer_map_open
      \<lparr>kmalloc_ok = True, task_mm = True, get_user_pages = (\<lambda>b n. (- 4, []))\<rparr>
      \<lparr>w_pins = [], w_list = False\<rparr> 0x10FF8 16
     = Inr (- 4, \<lparr>m_pages = [], m_n = 0, m_cur = 0, m_pos = 0xFF8\<rparr>,
            \<lparr>w_pins = [], w_list = False\<rparr>)"
  using kdbus_buffer_map_open_outcomes
          [of "\<lparr>kmalloc_ok = True, task_mm = True, get_user_pages = (\<lambda>b n. (1, [7]))\<rparr>"
              "0x10FF8" 16 1 "[7]" "\<lparr>w_pins = [], w_list = False\<rparr>"]
        kdbus_buffer_map_open_outcomes
          [of "\<lparr>kmalloc_ok = True, task_mm = True, get_user_pages = (\<lambda>b n. (- 4, []))\<rparr>"
              "0x10FF8" 16 "- 4" "[]" "\<lparr>w_pins = [], w_list = False\<rparr>"]
  by (simp add: kdbus_buffer_map_open_def kdbus_buffer_map_close_def Let_def gup_contract_def
        page_count_def PAGE_SIZE_def PAGE_MASK_def EFAULT_def)

text \<open>
  The computed count is the number of pages the range spans whenever the range is not
  empty, does not run past the end of the address space and spans fewer than \<open>2\<^sup>3\<^sup>2\<close>
  pages. For such ranges a pin of fewer pages than the range spans fails with
  \<^verbatim>\<open>-EFAULT\<close> and leaves nothing pinned.
\<close>

lemma page_count_spans:
  assumes "0 < len" and "unat addr + unat len \<le> 2 ^ 64"
    and "pages_spanned (unat addr) (unat len) < 2 ^ 32"
  shows "unat (page_count addr len) = pages_spanned (unat addr) (unat len)"
proof -
  have l: "0 < unat len"
    using assms(1) by (simp add: unat_gt_0 word_greater_zero_iff)
  then have l1: "unat (len - 1) = unat len - 1"
    using assms(1) by (simp add: unat_minus_one)
  have "unat addr + unat (len - 1) < 2 ^ 64"
    using assms(2) l l1 by simp
  then have "unat (addr + (len - 1)) = unat addr + unat (len - 1)"
    by (simp add: unat_add_lem [where 'a = 64, simplified])
  then have last: "unat (addr + len - 1) = unat addr + unat len - 1"
    using l l1 by (simp add: add_diff_eq)
  have d1: "unat ((addr + len - 1) div PAGE_SIZE) = (unat addr + unat len - 1) div 4096"
    by (simp add: unat_div last PAGE_SIZE_def)
  have d2: "unat (addr div PAGE_SIZE) = unat addr div 4096"
    by (simp add: unat_div PAGE_SIZE_def)
  have le: "unat addr div 4096 \<le> (unat addr + unat len - 1) div 4096"
    using l by (intro div_le_mono) simp
  then have "addr div PAGE_SIZE \<le> (addr + len - 1) div PAGE_SIZE"
    by (simp add: word_le_nat_alt d1 d2)
  then have sub: "unat ((addr + len - 1) div PAGE_SIZE - addr div PAGE_SIZE)
                    = (unat addr + unat len - 1) div 4096 - unat addr div 4096"
    by (simp add: unat_sub d1 d2)
  have sp: "pages_spanned (unat addr) (unat len)
              = (unat addr + unat len - 1) div 4096 - unat addr div 4096 + 1"
    using l by (simp add: pages_spanned_def)
  with assms(3) have small: "(unat addr + unat len - 1) div 4096 - unat addr div 4096 + 1 < 2 ^ 32"
    by simp
  then have "unat ((addr + len - 1) div PAGE_SIZE - addr div PAGE_SIZE) + unat (1 :: ulong)
               < 2 ^ LENGTH(64)"
    by (simp add: sub)
  from unat_add_lem [THEN iffD1, OF this]
  have "unat ((addr + len - 1) div PAGE_SIZE - addr div PAGE_SIZE + 1)
          = (unat addr + unat len - 1) div 4096 - unat addr div 4096 + 1"
    by (simp only: sub) simp
  with small show ?thesis
    by (simp add: page_count_def sp unsigned_ucast_eq take_bit_eq_mod)
qed

lemma kdbus_buffer_map_open_short_pin_in_range:
  assumes "kmalloc_ok env" and "task_mm env"
    and "get_user_pages env (to AND PAGE_MASK) (page_count to len) = (have, pinned)"
    and "gup_contract (have, pinned)" and "0 \<le> sint have"
    and "0 < len" and "unat to + unat len \<le> 2 ^ 64"
    and "pages_spanned (unat to) (unat len) < 2 ^ 32"
    and "unat have < pages_spanned (unat to) (unat len)"
  shows "\<exists>m w'. kdbus_buffer_map_open env w to len = Inr (- EFAULT, m, w')
           \<and> w_pins w' = w_pins w \<and> \<not> w_list w'"
proof -
  have "have < page_count to len"
    using assms(9) page_count_spans [OF assms(6-8)] by (simp add: word_less_nat_alt)
  with kdbus_buffer_map_open_outcomes [OF assms(1,3,4), of w] assms(2,5)
  show ?thesis
    by (auto simp: EFAULT_not_zero)
qed

text \<open>
  C7. The claim: over a range that spans \<open>n\<close> pages, a negative result of the pinning
  primitive is returned, a pin of fewer than \<open>n\<close> pages fails with the short-pin error,
  and every failure after the array was allocated leaves no page pinned and the array
  freed. The code computes the count in \<^verbatim>\<open>unsigned long\<close> and stores it in the
  \<^verbatim>\<open>unsigned int n\<close>, which keeps its low 32 bits. A range of \<open>2\<^sup>4\<^sup>4\<close> bytes at address
  \<^verbatim>\<open>0x1000\<close> spans \<open>2\<^sup>3\<^sup>2\<close> pages; the stored count is 0. The primitive, asked for no
  page, pins none and returns 0; 0 is not below the stored count, so the call returns
  success with no page pinned.
\<close>

theorem kdbus_buffer_map_open_truncated_page_count:
  "page_count 0x1000 0x100000000000 = 0
   \<and> pages_spanned (unat (0x1000 :: ulong)) (unat (0x100000000000 :: size_t)) = 4294967296
   \<and> gup_contract (0, [])
   \<and> kdbus_buffer_map_open
        \<lparr>kmalloc_ok = True, task_mm = True, get_user_pages = (\<lambda>b n. (0, []))\<rparr>
        \<lparr>w_pins = [], w_list = False\<rparr> 0x1000 0x100000000000
      = Inr (0, \<lparr>m_pages = [], m_n = 0, m_cur = 0, m_pos = 0\<rparr>,
             \<lparr>w_pins = [], w_list = True\<rparr>)"
  by (simp add: kdbus_buffer_map_open_def Let_def gup_contract_def
        page_count_def pages_spanned_def PAGE_SIZE_def PAGE_MASK_def)

subsection \<open>Write\<close>

lemma copy_from_user_numeral:
  "copy_from_user um a (numeral k) =
     (case um a of
        None \<Rightarrow> ([], numeral k)
      | Some v \<Rightarrow>
          (case copy_from_user um (a + 1) (pred_numeral k) of (bs, r) \<Rightarrow> (v # bs, r)))"
  by (simp add: numeral_eq_Suc split: option.splits)

lemma source_bytes_numeral:
  "source_bytes um a (numeral k) =
     (case um a of
        None \<Rightarrow> None
      | Some v \<Rightarrow>
          (case source_bytes um (a + 1) (pred_numeral k) of
             None \<Rightarrow> None
           | Some bs \<Rightarrow> Some (v # bs)))"
  by (simp add: numeral_eq_Suc)

lemma copy_from_user_complete:
  "copy_from_user um a k = (stored, 0) \<Longrightarrow> length stored = k"
  by (induction k arbitrary: a stored) (auto split: option.splits prod.splits)

lemma copy_from_user_left:
  "copy_from_user um a k = (stored, left) \<Longrightarrow> length stored + left = k"
  by (induction k arbitrary: a stored) (auto split: option.splits prod.splits)

lemma copy_from_user_prefix:
  "copy_from_user um a k = (stored, left) \<Longrightarrow> source_bytes um a (length stored) = Some stored"
  by (induction k arbitrary: a stored) (auto split: option.splits prod.splits)

lemma window_sizes_scenario: "window_sizes 0 5000 = [4096, 904]"
  by (simp add: window_sizes.simps)

lemma window_sizes_nil: "window_sizes pos 0 = []"
  by (simp add: window_sizes.simps)

lemma window_sizes_le_page: "b \<in> set (window_sizes pos len) \<Longrightarrow> b \<le> 4096"
proof (induction pos len rule: window_sizes.induct)
  case (1 pos len)
  show ?case
  proof (cases "len = 0 \<or> 4096 \<le> pos")
    case True
    with "1.prems" show ?thesis
      by (simp add: window_sizes.simps)
  next
    case False
    with "1.prems" have "b = min (4096 - pos) len
        \<or> b \<in> set (window_sizes (if pos + min (4096 - pos) len = 4096 then 0
                                   else pos + min (4096 - pos) len) (len - min (4096 - pos) len))"
      by (subst (asm) window_sizes.simps) (simp add: Let_def)
    then show ?thesis
    proof
      assume "b = min (4096 - pos) len"
      then show ?thesis by simp
    next
      assume "b \<in> set (window_sizes (if pos + min (4096 - pos) len = 4096 then 0
                                   else pos + min (4096 - pos) len) (len - min (4096 - pos) len))"
      with False show ?thesis
        by (intro "1.IH" [OF _ refl]) simp_all
    qed
  qed
qed

lemma window_sizes_sum: "pos < 4096 \<Longrightarrow> sum_list (window_sizes pos len) = len"
proof (induction pos len rule: window_sizes.induct)
  case (1 pos len)
  show ?case
  proof (cases "len = 0")
    case True
    then show ?thesis by (simp add: window_sizes_nil)
  next
    case False
    let ?b = "min (4096 - pos) len"
    let ?p = "if pos + ?b = 4096 then 0 else pos + ?b"
    from False "1.prems" have "?p < 4096"
      by (auto simp: min_def)
    with False "1.prems" have "sum_list (window_sizes ?p (len - ?b)) = len - ?b"
      by (intro "1.IH" [OF _ refl]) simp_all
    moreover have "window_sizes pos len = ?b # window_sizes ?p (len - ?b)"
      using False "1.prems" by (subst window_sizes.simps) (simp add: Let_def)
    ultimately show ?thesis
      by simp
  qed
qed

lemma window_sizes_count:
  "pos < 4096 \<Longrightarrow> 0 < len \<Longrightarrow> length (window_sizes pos len) = (pos + len - 1) div 4096 + 1"
proof (induction pos len rule: window_sizes.induct)
  case (1 pos len)
  define b where "b = min (4096 - pos) len"
  define p where "p = (if pos + b = 4096 then 0 else pos + b)"
  have unfold: "window_sizes pos len = b # window_sizes p (len - b)"
    using "1.prems" by (subst window_sizes.simps) (simp add: Let_def b_def p_def)
  show ?case
  proof (cases "pos + len \<le> 4096")
    case True
    with "1.prems" have "len - b = 0" and "(pos + len - 1) div 4096 = 0"
      by (simp_all add: b_def)
    with unfold show ?thesis
      by (simp add: window_sizes_nil)
  next
    case False
    with "1.prems" have bv: "b = 4096 - pos"
      by (simp add: b_def)
    with "1.prems" have pv: "p = 0"
      by (simp add: p_def)
    have rest: "0 < len - b"
      using False "1.prems" by (simp add: bv)
    have "length (window_sizes p (len - b)) = (p + (len - b) - 1) div 4096 + 1"
      unfolding p_def b_def
      using "1.prems" rest pv by (intro "1.IH" [OF _ refl]) (simp_all add: p_def b_def)
    then have "length (window_sizes p (len - b)) = (pos + len - 1 - 4096) div 4096 + 1"
      using False "1.prems" by (simp add: pv bv)
    moreover have "(pos + len - 1) div 4096 = Suc ((pos + len - 1 - 4096) div 4096)"
      using False by (intro le_div_geq) simp_all
    ultimately show ?thesis
      by (simp add: unfold)
  qed
qed


lemma unat_window_bytes:
  assumes "m_pos m < PAGE_SIZE"
  shows "unat (min (PAGE_SIZE - m_pos m) len) = min (4096 - unat (m_pos m)) (unat len)"
proof -
  have "unat (PAGE_SIZE - m_pos m) = 4096 - unat (m_pos m)"
    using assms by (simp add: unat_sub PAGE_SIZE_def)
  then show ?thesis
    by (simp add: min_def word_le_nat_alt)
qed

lemma unat_window_advance:
  assumes "m_pos m < PAGE_SIZE" and "bytes = min (PAGE_SIZE - m_pos m) len"
  shows "unat (m_pos m + bytes) = unat (m_pos m) + unat bytes"
    and "m_pos m + bytes = PAGE_SIZE \<longleftrightarrow> unat (m_pos m) + unat bytes = 4096"
proof -
  have p: "unat (m_pos m) < 4096"
    using assms(1) by (simp add: word_less_nat_alt PAGE_SIZE_def)
  have "unat bytes \<le> 4096 - unat (m_pos m)"
    using unat_window_bytes [OF assms(1), of len] assms(2) by simp
  with p have "unat (m_pos m) + unat bytes < 2 ^ 64"
    by simp
  then show sum: "unat (m_pos m + bytes) = unat (m_pos m) + unat bytes"
    by (simp add: unat_add_lem [where 'a = 64, simplified])
  have "m_pos m + bytes = PAGE_SIZE \<longleftrightarrow> unat (m_pos m + bytes) = unat PAGE_SIZE"
    by (simp add: word_unat_eq_iff)
  then show "m_pos m + bytes = PAGE_SIZE \<longleftrightarrow> unat (m_pos m) + unat bytes = 4096"
    by (simp add: sum PAGE_SIZE_def)
qed

lemma write_loop_window_lengths:
  assumes "kdbus_buffer_map_write_loop um m from len done = Inr (0, m', ws)"
    and "m_pos m < PAGE_SIZE"
  shows "window_lengths ws = window_lengths done @ window_sizes (unat (m_pos m)) (unat len)"
  using assms
proof (induction "unat len" arbitrary: len m "done" rule: less_induct)
  case less
  show ?case
  proof (cases "len = 0")
    case True
    with less.prems show ?thesis
      by (simp add: kdbus_buffer_map_write_loop.simps window_sizes_nil)
  next
    case False
    then have pos_len: "0 < len" "0 < unat len"
      by (simp_all add: word_greater_zero_iff unat_gt_0)
    define bytes where "bytes = min (PAGE_SIZE - m_pos m) len"
    have ub: "unat bytes = min (4096 - unat (m_pos m)) (unat len)"
      unfolding bytes_def by (rule unat_window_bytes [OF less.prems(2)])
    have p: "unat (m_pos m) < 4096"
      using less.prems(2) by (simp add: word_less_nat_alt PAGE_SIZE_def)
    with ub pos_len have b_pos: "0 < unat bytes" and b_le: "unat bytes \<le> unat len"
      by simp_all
    obtain stored left where cp: "copy_from_user um from (unat bytes) = (stored, left)"
      by (cases "copy_from_user um from (unat bytes)")
    define m2 where "m2 = (if m_pos m + bytes = PAGE_SIZE
                           then m\<lparr>m_pos := 0, m_cur := m_cur m + 1\<rparr>
                           else m\<lparr>m_pos := m_pos m + bytes\<rparr>)"
    define done' where "done' = done @ [(m_pages m ! unat (m_cur m), m_pos m, stored)]"
    have step: "kdbus_buffer_map_write_loop um m from len done =
                  (if length (m_pages m) \<le> unat (m_cur m) then Inl BadPageIndex
                   else if left \<noteq> 0 then Inr (- EFAULT, m, done')
                   else kdbus_buffer_map_write_loop um m2 from (len - bytes) done')"
      by (subst kdbus_buffer_map_write_loop.simps)
        (simp add: pos_len Let_def bytes_def [symmetric] cp m2_def done'_def)
    from less.prems(1) have left: "left = 0"
      unfolding step by (simp add: EFAULT_not_zero split: if_splits)
    from less.prems(1)
    have rec: "kdbus_buffer_map_write_loop um m2 from (len - bytes) done' = Inr (0, m', ws)"
      unfolding step by (simp add: left split: if_splits)
    have stored: "length stored = unat bytes"
      using cp left by (simp add: copy_from_user_complete)
    have adv: "unat (m_pos m + bytes) = unat (m_pos m) + unat bytes"
      "m_pos m + bytes = PAGE_SIZE \<longleftrightarrow> unat (m_pos m) + unat bytes = 4096"
      using unat_window_advance [OF less.prems(2) bytes_def] by simp_all
    have m2_pos: "unat (m_pos m2) = (if unat (m_pos m) + unat bytes = 4096 then 0
                                     else unat (m_pos m) + unat bytes)"
      by (simp add: m2_def adv)
    have "unat (m_pos m) + unat bytes \<le> 4096"
      using ub p by simp
    with m2_pos have m2_lt: "m_pos m2 < PAGE_SIZE"
      by (simp add: word_less_nat_alt PAGE_SIZE_def split: if_splits)
    have "bytes \<le> len"
      by (simp add: bytes_def)
    then have rest: "unat (len - bytes) = unat len - unat bytes"
      by (simp add: unat_sub)
    with b_pos b_le have "unat (len - bytes) < unat len"
      by simp
    from less.hyps [OF this rec m2_lt]
    have "window_lengths ws
            = window_lengths done' @ window_sizes (unat (m_pos m2)) (unat len - unat bytes)"
      by (simp add: rest)
    moreover have "window_sizes (unat (m_pos m)) (unat len)
            = unat bytes # window_sizes (unat (m_pos m2)) (unat len - unat bytes)"
      using pos_len(2) p by (subst window_sizes.simps) (simp add: Let_def ub [symmetric] m2_pos)
    ultimately show ?thesis
      by (simp add: done'_def window_lengths_def stored)
  qed
qed

lemma write_loop_outcome:
  "kdbus_buffer_map_write_loop um m from len done = Inr (r, m', ws)
     \<Longrightarrow> m_pages m' = m_pages m \<and> m_n m' = m_n m \<and> (r = 0 \<or> r = - EFAULT)
         \<and> (\<exists>new. ws = done @ new)"
proof (induction um m "from" len "done" rule: kdbus_buffer_map_write_loop.induct)
  case (1 um m "from" len "done")
  show ?case
  proof (cases "0 < len")
    case False
    with "1.prems" show ?thesis
      by (subst (asm) kdbus_buffer_map_write_loop.simps) simp
  next
    case True
    define bytes where "bytes = min (PAGE_SIZE - m_pos m) len"
    obtain stored left where cp: "copy_from_user um from (unat bytes) = (stored, left)"
      by (cases "copy_from_user um from (unat bytes)")
    define m1 where "m1 = m\<lparr>m_pos := m_pos m + bytes\<rparr>"
    define m2 where "m2 = (if m_pos m1 = PAGE_SIZE
                           then m1\<lparr>m_pos := 0, m_cur := m_cur m1 + 1\<rparr> else m1)"
    define done' where "done' = done @ [(m_pages m ! unat (m_cur m), m_pos m, stored)]"
    have step: "kdbus_buffer_map_write_loop um m from len done =
                  (if length (m_pages m) \<le> unat (m_cur m) then Inl BadPageIndex
                   else if left \<noteq> 0 then Inr (- EFAULT, m, done')
                   else kdbus_buffer_map_write_loop um m2 from (len - bytes) done')"
      by (subst kdbus_buffer_map_write_loop.simps)
        (simp add: True Let_def bytes_def [symmetric] cp m1_def m2_def done'_def)
    show ?thesis
    proof (cases "left = 0 \<and> \<not> length (m_pages m) \<le> unat (m_cur m)")
      case False
      with "1.prems" show ?thesis
        unfolding step by (auto simp: done'_def split: if_splits)
    next
      case ok: True
      with "1.prems" have rec:
        "kdbus_buffer_map_write_loop um m2 from (len - bytes) done' = Inr (r, m', ws)"
        unfolding step by simp
      from ok have inb: "\<not> length (m_pages m) \<le> unat (m_cur m)" and l0: "\<not> left \<noteq> 0"
        by simp_all
      have "m_pages m' = m_pages m2 \<and> m_n m' = m_n m2 \<and> (r = 0 \<or> r = - EFAULT)
              \<and> (\<exists>new. ws = done' @ new)"
        by (rule "1.IH" [OF True bytes_def inb cp [symmetric] done'_def l0 m1_def m2_def rec])
      then show ?thesis
        by (auto simp: m2_def m1_def done'_def)
    qed
  qed
qed

lemma written_bytes_length: "length (written_bytes ws) = sum_list (window_lengths ws)"
  by (induction ws) (auto simp: written_bytes_def window_lengths_def)

text \<open>
  What holds of every successful write that starts inside a page: the sizes of the
  windowed copies are those of the specification, none exceeds a page, a write of
  \<open>len > 0\<close> bytes from position \<open>pos\<close> makes \<open>(pos + len - 1) div 4096 + 1\<close> copies, one
  more than the page boundaries it crosses, and \<open>len\<close> bytes are stored in all.
\<close>

lemma kdbus_buffer_map_write_windows:
  assumes "kdbus_buffer_map_write um m from len = Inr (0, m', ws)" and "m_pos m < PAGE_SIZE"
  shows "window_lengths ws = window_sizes (unat (m_pos m)) (unat len)"
    and "\<forall>b \<in> set (window_lengths ws). b \<le> 4096"
    and "0 < len \<Longrightarrow> length ws = (unat (m_pos m) + unat len - 1) div 4096 + 1"
    and "length (written_bytes ws) = unat len"
proof -
  have p: "unat (m_pos m) < 4096"
    using assms(2) by (simp add: word_less_nat_alt PAGE_SIZE_def)
  show sizes: "window_lengths ws = window_sizes (unat (m_pos m)) (unat len)"
    using write_loop_window_lengths [OF assms [unfolded kdbus_buffer_map_write_def]]
    by (simp add: window_lengths_def)
  then show "\<forall>b \<in> set (window_lengths ws). b \<le> 4096"
    by (simp add: window_sizes_le_page)
  have "length ws = length (window_lengths ws)"
    by (simp add: window_lengths_def)
  then show "length ws = (unat (m_pos m) + unat len - 1) div 4096 + 1" if "0 < len"
    using that p by (simp add: sizes window_sizes_count unat_gt_0 word_greater_zero_iff)
  show "length (written_bytes ws) = unat len"
    using p by (simp add: written_bytes_length sizes window_sizes_sum)
qed

lemma kdbus_buffer_map_write_5000:
  assumes "kdbus_buffer_map_write um m from 5000 = Inr (0, m', ws)" and "m_pos m = 0"
  shows "window_lengths ws = [4096, 904]"
proof -
  have "m_pos m < PAGE_SIZE"
    by (simp add: assms(2) PAGE_SIZE_def)
  from kdbus_buffer_map_write_windows(1) [OF assms(1) this] show ?thesis
    by (simp add: assms(2) window_sizes_scenario)
qed

text \<open>
  A write that stays within the current page is one windowed copy; it stores the source
  bytes up to the first one that cannot be read, and reports the fault if there is one.
\<close>

lemma kdbus_buffer_map_write_one_window:
  assumes "m_pos m < PAGE_SIZE" and "0 < len" and "unat (m_pos m) + unat len < 4096"
    and "unat (m_cur m) < length (m_pages m)"
    and "copy_from_user um from (unat len) = (stored, left)"
  shows "kdbus_buffer_map_write um m from len =
           Inr (if left \<noteq> 0 then (- EFAULT, m, [(m_pages m ! unat (m_cur m), m_pos m, stored)])
                else (0, m\<lparr>m_pos := m_pos m + len\<rparr>,
                      [(m_pages m ! unat (m_cur m), m_pos m, stored)]))"
    and "source_bytes um from (length stored) = Some stored"
    and "length stored + left = unat len"
proof -
  have "unat (min (PAGE_SIZE - m_pos m) len) = unat len"
    using assms(3) by (simp add: unat_window_bytes [OF assms(1)])
  then have bytes: "min (PAGE_SIZE - m_pos m) len = len"
    by (simp add: word_unat_eq_iff)
  have "unat (m_pos m + len) = unat (m_pos m) + unat len"
    using unat_window_advance(1) [OF assms(1) bytes [symmetric]] .
  with assms(3) have "unat (m_pos m + len) \<noteq> unat PAGE_SIZE"
    by (simp add: PAGE_SIZE_def)
  then have no_wrap: "m_pos m + len \<noteq> PAGE_SIZE"
    by auto
  show "kdbus_buffer_map_write um m from len =
           Inr (if left \<noteq> 0 then (- EFAULT, m, [(m_pages m ! unat (m_cur m), m_pos m, stored)])
                else (0, m\<lparr>m_pos := m_pos m + len\<rparr>,
                      [(m_pages m ! unat (m_cur m), m_pos m, stored)]))"
    unfolding kdbus_buffer_map_write_def
    using assms(2,4,5) no_wrap
    by (subst kdbus_buffer_map_write_loop.simps)
      (simp add: bytes Let_def kdbus_buffer_map_write_loop.simps [of _ _ _ 0])
  show "source_bytes um from (length stored) = Some stored"
    using assms(5) by (rule copy_from_user_prefix)
  show "length stored + left = unat len"
    using assms(5) by (rule copy_from_user_left)
qed

text \<open>
  C8. The claim: the chunks written by a successful write, put together, are the source
  bytes in order. The loop of \<^verbatim>\<open>kdbus_buffer_map_write\<close> never advances \<^verbatim>\<open>from\<close>: every
  windowed copy reads from the start of the source. A write of the two bytes \<open>AA BB\<close> that
  begins at the last byte of a page succeeds with two windowed copies of one byte each,
  as the claim says, but both store \<open>AA\<close>.
\<close>

theorem kdbus_buffer_map_write_repeats_source_start:
  "kdbus_buffer_map_write [0x2000 \<mapsto> 0xAA, 0x2001 \<mapsto> 0xBB]
      \<lparr>m_pages = [10, 11], m_n = 2, m_cur = 0, m_pos = 4095\<rparr> 0x2000 2
     = Inr (0, \<lparr>m_pages = [10, 11], m_n = 2, m_cur = 1, m_pos = 1\<rparr>,
            [(10, 4095, [0xAA]), (11, 0, [0xAA])])
   \<and> source_bytes [0x2000 \<mapsto> 0xAA, 0x2001 \<mapsto> 0xBB] 0x2000 2 = Some [0xAA, 0xBB]
   \<and> written_bytes [(10, 4095, [0xAA]), (11, 0, [0xAA])] = [0xAA, 0xAA]"
  by (simp add: kdbus_buffer_map_write_def kdbus_buffer_map_write_loop.simps PAGE_SIZE_def
        written_bytes_def copy_from_user_numeral source_bytes_numeral)

text \<open>
  C9. The claim: a write whose source faults at byte offset \<open>f\<close> stores the first \<open>f\<close>
  source bytes and nothing beyond them. Take a source that starts at the last byte of a
  readable page with nothing readable behind it, so that it faults at offset 1, and a
  write of three bytes that begins at the last byte of a destination page. The first windowed copy stores the readable byte. The second one
  reads from the start of the source again, stores that byte a second time, at
  destination offset 1, and only then faults. The write reports \<^verbatim>\<open>-EFAULT\<close> with the
  cursor at the start of the faulting chunk and the pages untouched, but two bytes have
  been stored.
\<close>

theorem kdbus_buffer_map_write_stores_past_fault:
  "kdbus_buffer_map_write [0x2FFF \<mapsto> 0xAA]
      \<lparr>m_pages = [10, 11], m_n = 2, m_cur = 0, m_pos = 4095\<rparr> 0x2FFF 3
     = Inr (- EFAULT, \<lparr>m_pages = [10, 11], m_n = 2, m_cur = 1, m_pos = 0\<rparr>,
            [(10, 4095, [0xAA]), (11, 0, [0xAA])])
   \<and> source_bytes [0x2FFF \<mapsto> 0xAA] 0x2FFF 1 = Some [0xAA]
   \<and> source_bytes [0x2FFF \<mapsto> 0xAA] 0x2FFF 2 = None
   \<and> length (written_bytes [(10, 4095, [0xAA]), (11, 0, [0xAA])]) = 2"
  by (simp add: kdbus_buffer_map_write_def kdbus_buffer_map_write_loop.simps PAGE_SIZE_def
        written_bytes_def copy_from_user_numeral source_bytes_numeral EFAULT_def)

end
